theory Spec2Isabelle
  imports Complex_Main
begin

section \<open>Values of the host language\<close>

text \<open>
  The functions of \<^verbatim>\<open>netsuite_all_functions.py\<close> handle values that come out of
  \<^verbatim>\<open>response.json()\<close>: \<^verbatim>\<open>None\<close>, booleans, numbers, strings, lists and dictionaries.
  A dictionary is an association list in insertion order. A float is kept as a real
  number: the code never computes with one, it only tests a value for truth.
\<close>

datatype pyval =
    PNone
  | PBool bool
  | PInt int
  | PFloat real
  | PStr string
  | PList "pyval list"
  | PDict "(string \<times> pyval) list"

text \<open>
  The exceptions that the expressions of the module can raise. The last two come out of the
  HTTP call itself, before there is any response: \<^verbatim>\<open>InvalidURL\<close> when the URL cannot be
  prepared, \<^verbatim>\<open>ConnectionError\<close> when the host cannot be reached.
\<close>

datatype error =
    JSONDecodeError | AttributeError | TypeError | IndexError | InvalidURL | ConnectionError

text \<open>Truth value of an object, as tested by \<^verbatim>\<open>if x:\<close> and \<^verbatim>\<open>not x\<close>.\<close>

fun truthy :: "pyval \<Rightarrow> bool" where
  "truthy PNone = False"
| "truthy (PBool b) = b"
| "truthy (PInt i) = (i \<noteq> 0)"
| "truthy (PFloat x) = (x \<noteq> 0)"
| "truthy (PStr s) = (s \<noteq> [])"
| "truthy (PList xs) = (xs \<noteq> [])"
| "truthy (PDict kvs) = (kvs \<noteq> [])"

text \<open>
  \<^verbatim>\<open>data.get(key, default)\<close>: only a dictionary has the method, every other object
  raises \<^verbatim>\<open>AttributeError\<close>.
\<close>

fun py_get :: "pyval \<Rightarrow> string \<Rightarrow> pyval \<Rightarrow> error + pyval" where
  "py_get (PDict kvs) k d = Inr (case map_of kvs k of None \<Rightarrow> d | Some v \<Rightarrow> v)"
| "py_get _ k d = Inl AttributeError"

text \<open>
  \<^verbatim>\<open>all_items.extend(items)\<close> appends the elements that iterating over \<^verbatim>\<open>items\<close>
  yields: the elements of a list, the characters of a string, the keys of a dictionary.
  An object that is not iterable raises \<^verbatim>\<open>TypeError\<close>.
\<close>

fun py_extend :: "pyval list \<Rightarrow> pyval \<Rightarrow> error + pyval list" where
  "py_extend acc (PList xs) = Inr (acc @ xs)"
| "py_extend acc (PStr s) = Inr (acc @ map (\<lambda>c. PStr [c]) s)"
| "py_extend acc (PDict kvs) = Inr (acc @ map (\<lambda>kv. PStr (fst kv)) kvs)"
| "py_extend acc _ = Inl TypeError"

text \<open>\<^verbatim>\<open>len(items)\<close>.\<close>

fun py_len :: "pyval \<Rightarrow> error + int" where
  "py_len (PList xs) = Inr (int (length xs))"
| "py_len (PStr s) = Inr (int (length s))"
| "py_len (PDict kvs) = Inr (int (length kvs))"
| "py_len _ = Inl TypeError"

subsection \<open>Strings\<close>

text \<open>Decimal rendering of an integer, as an f-string does it.\<close>

definition digit_char :: "nat \<Rightarrow> char" where
  "digit_char d = ''0123456789'' ! d"

function str_nat :: "nat \<Rightarrow> string" where
  "str_nat n = (if n < 10 then [digit_char n] else str_nat (n div 10) @ [digit_char (n mod 10)])"
  by pat_completeness auto
termination
  by (relation "measure (\<lambda>n. n)") auto

declare str_nat.simps [simp del]

definition str_int :: "int \<Rightarrow> string" where
  "str_int i = (if i < 0 then CHR ''-'' # str_nat (nat (- i)) else str_nat (nat i))"

text \<open>
  An environment variable that is not set is \<^verbatim>\<open>None\<close>, which an f-string renders
  as the word \<^verbatim>\<open>None\<close>.
\<close>

fun str_opt :: "string option \<Rightarrow> string" where
  "str_opt None = ''None''"
| "str_opt (Some s) = s"

text \<open>\<^verbatim>\<open>s.rstrip("/")\<close> and \<^verbatim>\<open>s.split("/")\<close>, for any separator character.\<close>

definition rstrip :: "char \<Rightarrow> string \<Rightarrow> string" where
  "rstrip c s = rev (dropWhile (\<lambda>x. x = c) (rev s))"

fun split :: "char \<Rightarrow> string \<Rightarrow> string list" where
  "split sep [] = [[]]"
| "split sep (c # cs) =
     (if c = sep then [] # split sep cs
      else (case split sep cs of [] \<Rightarrow> [[c]] | w # ws \<Rightarrow> (c # w) # ws))"

text \<open>\<^verbatim>\<open>xs[-1]\<close>: the last element, \<^verbatim>\<open>IndexError\<close> on an empty list.\<close>

definition index_last :: "'a list \<Rightarrow> error + 'a" where
  "index_last xs = (if xs = [] then Inl IndexError else Inr (last xs))"

text \<open>
  The wording of the specification for the identifier of a created record: the last
  segment of a header value cut at every \<^verbatim>\<open>/\<close>.
\<close>

definition last_segment :: "string \<Rightarrow> string" where
  "last_segment v = last (split CHR ''/'' v)"

section \<open>Requests and responses\<close>

text \<open>
  A request is the verb with the arguments the module passes to it: the URL, the JSON
  payload, the extra headers. The signer \<^verbatim>\<open>auth\<close> goes unchanged into every call and
  is part of the transport.
\<close>

datatype request =
    GET string
  | POST string pyval "(string \<times> string) list"
  | PATCH string pyval
  | DELETE string

text \<open>
  Of a response the module reads the status code, the headers and the outcome of
  \<^verbatim>\<open>response.json()\<close>, which is \<open>None\<close> when the body is not JSON and the call
  raises. The text of the body is only printed.
\<close>

record response =
  status_code :: int
  headers :: "(string \<times> string) list"
  json :: "pyval option"

text \<open>
  The headers of a response are a dictionary whose keys compare without regard to case.
\<close>

definition lower_char :: "char \<Rightarrow> char" where
  "lower_char c =
     (let n = (of_char c :: nat) in if 65 \<le> n \<and> n \<le> 90 then char_of (n + 32) else c)"

definition headers_get :: "(string \<times> string) list \<Rightarrow> string \<Rightarrow> string option" where
  "headers_get hs k = map_of (map (\<lambda>kv. (map lower_char (fst kv), snd kv)) hs) (map lower_char k)"

text \<open>Transports used to exercise the operations: one fixed answer, or a script of answers.\<close>

definition always :: "response \<Rightarrow> request \<Rightarrow> response" where
  "always r req = r"

definition script :: "response list \<Rightarrow> response \<Rightarrow> nat \<Rightarrow> request \<Rightarrow> response" where
  "script rs d n req = (if n < length rs then rs ! n else d)"

text \<open>
  A call of the HTTP library has two outcomes: it returns a response, or it raises before
  there is one. The module has no handler, so what the call raises leaves the function
  that made it. The update and the delete of a record take a transport with both
  outcomes; the create and the paginated operations are followed on the calls that return
  a response. Three such transports: one that always answers, one that always raises, and
  one that refuses a URL whose host begins with a dot, as the library does when it
  prepares the request, and answers otherwise.
\<close>

fun url_of :: "request \<Rightarrow> string" where
  "url_of (GET url) = url"
| "url_of (POST url payload hs) = url"
| "url_of (PATCH url payload) = url"
| "url_of (DELETE url) = url"

definition replies :: "response \<Rightarrow> request \<Rightarrow> error + response" where
  "replies r req = Inr r"

definition raises :: "error \<Rightarrow> request \<Rightarrow> error + response" where
  "raises e req = Inl e"

definition checked :: "response \<Rightarrow> request \<Rightarrow> error + response" where
  "checked r req = (if take 9 (url_of req) = ''https://.'' then Inl InvalidURL else Inr r)"

section \<open>Single-record operations\<close>

definition record_base_url :: "string option \<Rightarrow> string" where
  "record_base_url NS_COMPANY_ID =
     ''https://'' @ str_opt NS_COMPANY_ID @ ''.suitetalk.api.netsuite.com/services/rest/record/v1''"

definition create_netsuite_record ::
  "string option \<Rightarrow> (request \<Rightarrow> response) \<Rightarrow> string \<Rightarrow> pyval \<Rightarrow> error + pyval" where
  "create_netsuite_record NS_COMPANY_ID transport endpoint payload =
     (let base_url = record_base_url NS_COMPANY_ID;
          url = base_url @ ''/'' @ endpoint;
          response = transport (POST url payload [])
      in if status_code response = 200 \<or> status_code response = 201 then
           (case json response of
              None \<Rightarrow> Inl JSONDecodeError
            | Some result \<Rightarrow>
                (case py_get result ''id'' PNone of
                   Inl e \<Rightarrow> Inl e
                 | Inr record_id \<Rightarrow> Inr result))
         else if status_code response = 204 then
           (case headers_get (headers response) ''Location'' of
              None \<Rightarrow> Inr (PDict [])
            | Some location \<Rightarrow>
                if location \<noteq> [] then
                  (case index_last (split CHR ''/'' (rstrip CHR ''/'' location)) of
                     Inl e \<Rightarrow> Inl e
                   | Inr record_id \<Rightarrow> Inr (PDict [(''id'', PStr record_id)]))
                else Inr (PDict []))
         else Inr PNone)"

definition update_netsuite_record ::
  "string option \<Rightarrow> (request \<Rightarrow> error + response) \<Rightarrow> string \<Rightarrow> string \<Rightarrow> pyval \<Rightarrow> error + pyval"
  where
  "update_netsuite_record NS_COMPANY_ID transport endpoint record_id payload =
     (let base_url = record_base_url NS_COMPANY_ID;
          url = base_url @ ''/'' @ endpoint @ ''/'' @ record_id
      in case transport (PATCH url payload) of
           Inl e \<Rightarrow> Inl e
         | Inr response \<Rightarrow>
             if status_code response = 200 \<or> status_code response = 201 then
               (case json response of None \<Rightarrow> Inl JSONDecodeError | Some body \<Rightarrow> Inr body)
             else if status_code response = 204 then Inr (PDict [])
             else Inr PNone)"

definition delete_netsuite_record ::
  "string option \<Rightarrow> (request \<Rightarrow> error + response) \<Rightarrow> string \<Rightarrow> string \<Rightarrow> error + bool" where
  "delete_netsuite_record NS_COMPANY_ID transport endpoint record_id =
     (let base_url = record_base_url NS_COMPANY_ID;
          url = base_url @ ''/'' @ endpoint @ ''/'' @ record_id
      in case transport (DELETE url) of
           Inl e \<Rightarrow> Inl e
         | Inr response \<Rightarrow> if status_code response = 204 then Inr True else Inr False)"

section \<open>Paginated operations\<close>

subsection \<open>The loop \<^verbatim>\<open>while True:\<close>\<close>

text \<open>
  One pass through the body of the loop ends in one of three ways: the body reaches its
  end and the loop goes round again, it executes \<^verbatim>\<open>break\<close>, or an exception leaves it.
  Each carries the state the pass ended in.
\<close>

datatype 's ctl = Continue 's | Break 's | Raise error 's

fun state_of :: "'s ctl \<Rightarrow> 's" where
  "state_of (Continue s) = s"
| "state_of (Break s) = s"
| "state_of (Raise e s) = s"

fun finished :: "'s ctl \<Rightarrow> bool" where
  "finished (Continue s) = False"
| "finished (Break s) = True"
| "finished (Raise e s) = True"

text \<open>
  The loop has no bound of its own, so it is a partial function: \<open>None\<close> is the loop
  that never ends, \<open>Some (Inr s)\<close> the state at the \<^verbatim>\<open>break\<close>, \<open>Some (Inl e)\<close> the
  exception that left it.
\<close>

partial_function (option) while_True :: "('s \<Rightarrow> 's ctl) \<Rightarrow> 's \<Rightarrow> (error + 's) option" where
  "while_True body s =
     (case body s of
        Continue s' \<Rightarrow> while_True body s'
      | Break s' \<Rightarrow> Some (Inr s')
      | Raise e s' \<Rightarrow> Some (Inl e))"

text \<open>The same loop cut off after \<open>n\<close> passes, to look at the state it is in by then.\<close>

fun passes :: "nat \<Rightarrow> ('s \<Rightarrow> 's ctl) \<Rightarrow> 's \<Rightarrow> 's ctl" where
  "passes 0 body s = Continue s"
| "passes (Suc n) body s =
     (case body s of
        Continue s' \<Rightarrow> passes n body s'
      | Break s' \<Rightarrow> Break s'
      | Raise e s' \<Rightarrow> Raise e s')"

text \<open>
  The variables of the three loops, and the requests issued so far: the reply of the
  transport may depend on the request and on how many came before it.
\<close>

record fetch_state =
  sent :: "request list"
  offset :: int
  all_items :: "pyval list"

definition initial :: fetch_state where
  "initial = \<lparr>sent = [], offset = 0, all_items = []\<rparr>"

subsection \<open>\<^verbatim>\<open>fetch_all_netsuite_records\<close>\<close>

definition records_request :: "string \<Rightarrow> int \<Rightarrow> request" where
  "records_request url cursor = (let paged_url = url @ ''?offset='' @ str_int cursor in GET paged_url)"

definition records_pass ::
  "(nat \<Rightarrow> request \<Rightarrow> response) \<Rightarrow> string \<Rightarrow> fetch_state \<Rightarrow> fetch_state ctl" where
  "records_pass transport url s =
     (let request = records_request url (offset s);
          response = transport (length (sent s)) request;
          s = s\<lparr>sent := sent s @ [request]\<rparr>
      in if status_code response \<noteq> 200 then Break s
         else
           (case json response of
              None \<Rightarrow> Raise JSONDecodeError s
            | Some data \<Rightarrow>
           (case py_get data ''items'' (PList []) of
              Inl e \<Rightarrow> Raise e s
            | Inr items \<Rightarrow>
           (case py_extend (all_items s) items of
              Inl e \<Rightarrow> Raise e s
            | Inr extended \<Rightarrow>
           (case py_get data ''hasMore'' (PBool False) of
              Inl e \<Rightarrow> Raise e (s\<lparr>all_items := extended\<rparr>)
            | Inr flag \<Rightarrow>
                if \<not> truthy flag then Break (s\<lparr>all_items := extended\<rparr>)
                else
                  (case py_len items of
                     Inl e \<Rightarrow> Raise e (s\<lparr>all_items := extended\<rparr>)
                   | Inr n \<Rightarrow> Continue (s\<lparr>all_items := extended, offset := offset s + n\<rparr>)))))))"

definition fetch_all_netsuite_records ::
  "string option \<Rightarrow> (nat \<Rightarrow> request \<Rightarrow> response) \<Rightarrow> string \<Rightarrow> (error + pyval list) option" where
  "fetch_all_netsuite_records NS_COMPANY_ID transport endpoint =
     (let base_url = record_base_url NS_COMPANY_ID;
          url = base_url @ ''/'' @ endpoint
      in map_option (map_sum id all_items) (while_True (records_pass transport url) initial))"

subsection \<open>\<^verbatim>\<open>fetch_all_dataset_records\<close>\<close>

definition dataset_url :: "string option \<Rightarrow> string \<Rightarrow> string" where
  "dataset_url NS_COMPANY_ID dataset_id =
     (let base_url = ''https://'' @ str_opt NS_COMPANY_ID @ ''.suitetalk.api.netsuite.com'';
          endpoint = ''/services/rest/query/v1/dataset/'' @ dataset_id @ ''/result''
      in base_url @ endpoint)"

definition dataset_request :: "string \<Rightarrow> int \<Rightarrow> int \<Rightarrow> request" where
  "dataset_request base limit cursor =
     (let url = base @ ''?limit='' @ str_int limit @ ''&offset='' @ str_int cursor in GET url)"

definition dataset_pass ::
  "(nat \<Rightarrow> request \<Rightarrow> response) \<Rightarrow> string \<Rightarrow> int \<Rightarrow> fetch_state \<Rightarrow> fetch_state ctl" where
  "dataset_pass transport base limit s =
     (let request = dataset_request base limit (offset s);
          response = transport (length (sent s)) request;
          s = s\<lparr>sent := sent s @ [request]\<rparr>
      in if status_code response \<noteq> 200 then Break s
         else
           (case json response of
              None \<Rightarrow> Raise JSONDecodeError s
            | Some data \<Rightarrow>
           (case py_get data ''items'' (PList []) of
              Inl e \<Rightarrow> Raise e s
            | Inr items \<Rightarrow>
           (case py_extend (all_items s) items of
              Inl e \<Rightarrow> Raise e s
            | Inr extended \<Rightarrow>
           (case py_get data ''hasMore'' PNone of
              Inl e \<Rightarrow> Raise e (s\<lparr>all_items := extended\<rparr>)
            | Inr flag \<Rightarrow>
                if \<not> truthy flag then Break (s\<lparr>all_items := extended\<rparr>)
                else Continue (s\<lparr>all_items := extended, offset := offset s + limit\<rparr>))))))"

definition fetch_all_dataset_records ::
  "string option \<Rightarrow> (nat \<Rightarrow> request \<Rightarrow> response) \<Rightarrow> string \<Rightarrow> int \<Rightarrow> (error + pyval list) option" where
  "fetch_all_dataset_records NS_COMPANY_ID transport dataset_id limit =
     map_option (map_sum id all_items)
       (while_True (dataset_pass transport (dataset_url NS_COMPANY_ID dataset_id) limit) initial)"

subsection \<open>\<^verbatim>\<open>run_suiteql_query\<close>\<close>

definition suiteql_url :: "string option \<Rightarrow> string" where
  "suiteql_url NS_COMPANY_ID =
     ''https://'' @ str_opt NS_COMPANY_ID @ ''.suitetalk.api.netsuite.com/services/rest/query/v1/suiteql''"

definition suiteql_headers :: "(string \<times> string) list" where
  "suiteql_headers = [(''Content-Type'', ''application/json''), (''Prefer'', ''transient'')]"

definition suiteql_limit :: int where
  "suiteql_limit = 1000"

definition suiteql_request :: "string \<Rightarrow> string \<Rightarrow> int \<Rightarrow> request" where
  "suiteql_request base_url query_string cursor =
     (let url = base_url @ ''?limit='' @ str_int suiteql_limit @ ''&offset='' @ str_int cursor;
          payload = PDict [(''q'', PStr query_string)]
      in POST url payload suiteql_headers)"

definition suiteql_pass ::
  "(nat \<Rightarrow> request \<Rightarrow> response) \<Rightarrow> string \<Rightarrow> string \<Rightarrow> fetch_state \<Rightarrow> fetch_state ctl" where
  "suiteql_pass transport base_url query_string s =
     (let limit = suiteql_limit;
          request = suiteql_request base_url query_string (offset s);
          response = transport (length (sent s)) request;
          s = s\<lparr>sent := sent s @ [request]\<rparr>
      in if status_code response = 200 then
           (case json response of
              None \<Rightarrow> Raise JSONDecodeError s
            | Some data \<Rightarrow>
           (case py_get data ''items'' (PList []) of
              Inl e \<Rightarrow> Raise e s
            | Inr items \<Rightarrow>
           (case py_extend (all_items s) items of
              Inl e \<Rightarrow> Raise e s
            | Inr extended \<Rightarrow>
           (case py_len items of
              Inl e \<Rightarrow> Raise e (s\<lparr>all_items := extended\<rparr>)
            | Inr n \<Rightarrow>
                if n < limit then Break (s\<lparr>all_items := extended\<rparr>)
                else Continue (s\<lparr>all_items := extended, offset := offset s + limit\<rparr>)))))
         else Break s)"

definition run_suiteql_query ::
  "string option \<Rightarrow> (nat \<Rightarrow> request \<Rightarrow> response) \<Rightarrow> string \<Rightarrow> (error + pyval list) option" where
  "run_suiteql_query NS_COMPANY_ID transport query_string =
     map_option (map_sum id all_items)
       (while_True (suiteql_pass transport (suiteql_url NS_COMPANY_ID) query_string) initial)"

subsection \<open>Pages\<close>

text \<open>
  What the loops read from a reply that is a page: the list under \<^verbatim>\<open>items\<close> of a reply
  with status 200 and a JSON object as its body (no list when the key is missing), and
  the truth of what stands under \<^verbatim>\<open>hasMore\<close>.
\<close>

definition page_items :: "response \<Rightarrow> pyval list option" where
  "page_items r =
     (if status_code r = 200 then
        (case json r of
           Some (PDict kvs) \<Rightarrow>
             (case map_of kvs ''items'' of
                None \<Rightarrow> Some []
              | Some (PList xs) \<Rightarrow> Some xs
              | Some _ \<Rightarrow> None)
         | _ \<Rightarrow> None)
      else None)"

definition has_more :: "response \<Rightarrow> bool" where
  "has_more r =
     (case json r of
        Some (PDict kvs) \<Rightarrow> (case map_of kvs ''hasMore'' of None \<Rightarrow> False | Some v \<Rightarrow> truthy v)
      | _ \<Rightarrow> False)"

text \<open>A reply whose body is a JSON object with no key \<^verbatim>\<open>hasMore\<close>.\<close>

definition lacks_hasMore :: "response \<Rightarrow> bool" where
  "lacks_hasMore r =
     (case json r of
        Some (PDict kvs) \<Rightarrow> map_of kvs ''hasMore'' = None
      | _ \<Rightarrow> False)"

text \<open>Replies as a test would build them: a page, and a reply with nothing but a status.\<close>

definition page :: "pyval list \<Rightarrow> bool \<Rightarrow> response" where
  "page xs flag =
     \<lparr>status_code = 200, headers = [],
      json = Some (PDict [(''items'', PList xs), (''hasMore'', PBool flag)])\<rparr>"

definition reply :: "int \<Rightarrow> response" where
  "reply code = \<lparr>status_code = code, headers = [], json = None\<rparr>"

section \<open>Properties of the loop\<close>

lemma passes_Continue_while:
  "passes n body s = Continue s' \<Longrightarrow> while_True body s = while_True body s'"
proof (induction n arbitrary: s)
  case 0
  then show ?case by simp
next
  case (Suc n)
  then show ?case
    by (subst while_True.simps) (auto split: ctl.splits)
qed

lemma passes_Suc_snoc:
  "passes (Suc n) body s =
     (case passes n body s of Continue s' \<Rightarrow> body s' | Break s' \<Rightarrow> Break s' | Raise e s' \<Rightarrow> Raise e s')"
proof (induction n arbitrary: s)
  case 0
  show ?case by (cases "body s") simp_all
next
  case (Suc n)
  show ?case
  proof (cases "body s")
    case (Continue s')
    have "passes (Suc (Suc n)) body s = passes (Suc n) body s'"
      using Continue by simp
    also have "\<dots> = (case passes n body s' of Continue t \<Rightarrow> body t | Break t \<Rightarrow> Break t
                       | Raise e t \<Rightarrow> Raise e t)"
      by (rule Suc.IH)
    also have "passes n body s' = passes (Suc n) body s"
      using Continue by simp
    finally show ?thesis .
  next
    case (Break s')
    then show ?thesis by simp
  next
    case (Raise e s')
    then show ?thesis by simp
  qed
qed

lemma passes_step:
  "passes n body s = Continue s' \<Longrightarrow> passes (Suc n) body s = body s'"
  by (simp only: passes_Suc_snoc ctl.case)

lemma while_True_Some_finished:
  assumes "while_True body s = Some r"
  shows "\<exists>n. finished (passes n body s)"
proof (rule while_True.raw_induct
    [where P = "\<lambda>body s r. \<exists>n. finished (passes n body s)", OF _ assms])
  fix loop :: "('a \<Rightarrow> 'a ctl) \<Rightarrow> 'a \<Rightarrow> (error + 'a) option" and body s r
  assume IH: "\<And>b t y. loop b t = Some y \<Longrightarrow> \<exists>n. finished (passes n b t)"
    and step: "(case body s of Continue s' \<Rightarrow> loop body s' | Break s' \<Rightarrow> Some (Inr s')
                | Raise e s' \<Rightarrow> Some (Inl e)) = Some r"
  show "\<exists>n. finished (passes n body s)"
  proof (cases "body s")
    case (Continue s')
    with step have "loop body s' = Some r" by simp
    then obtain n where "finished (passes n body s')" using IH by blast
    with Continue have "finished (passes (Suc n) body s)" by simp
    then show ?thesis ..
  next
    case (Break s')
    then have "finished (passes (Suc 0) body s)" by simp
    then show ?thesis ..
  next
    case (Raise e s')
    then have "finished (passes (Suc 0) body s)" by simp
    then show ?thesis ..
  qed
qed

lemma while_True_never:
  assumes "\<And>n. \<not> finished (passes n body s)"
  shows "while_True body s = None"
proof (cases "while_True body s")
  case None
  then show ?thesis .
next
  case (Some r)
  then have "\<exists>n. finished (passes n body s)" by (rule while_True_Some_finished)
  with assms show ?thesis by blast
qed

lemma passes_Break_while:
  "passes n body s = Break s' \<Longrightarrow> while_True body s = Some (Inr s')"
proof (induction n arbitrary: s)
  case 0
  then show ?case by simp
next
  case (Suc n)
  then show ?case
    by (subst while_True.simps) (auto split: ctl.splits)
qed

subsection \<open>One pass over a page\<close>

lemma records_pass_page:
  assumes "page_items (transport (length (sent s)) (records_request url (offset s))) = Some xs"
  shows "records_pass transport url s =
     (if has_more (transport (length (sent s)) (records_request url (offset s)))
      then Continue (s\<lparr>sent := sent s @ [records_request url (offset s)],
                       all_items := all_items s @ xs, offset := offset s + int (length xs)\<rparr>)
      else Break (s\<lparr>sent := sent s @ [records_request url (offset s)],
                    all_items := all_items s @ xs\<rparr>))"
  using assms
  by (auto simp: records_pass_def page_items_def has_more_def Let_def
           split: if_splits option.splits pyval.splits)

lemma dataset_pass_page:
  assumes "page_items (transport (length (sent s)) (dataset_request base limit (offset s))) = Some xs"
  shows "dataset_pass transport base limit s =
     (if has_more (transport (length (sent s)) (dataset_request base limit (offset s)))
      then Continue (s\<lparr>sent := sent s @ [dataset_request base limit (offset s)],
                       all_items := all_items s @ xs, offset := offset s + limit\<rparr>)
      else Break (s\<lparr>sent := sent s @ [dataset_request base limit (offset s)],
                    all_items := all_items s @ xs\<rparr>))"
  using assms
  by (auto simp: dataset_pass_def page_items_def has_more_def Let_def
           split: if_splits option.splits pyval.splits)

lemma suiteql_pass_page:
  assumes "page_items (transport (length (sent s)) (suiteql_request base q (offset s))) = Some xs"
  shows "suiteql_pass transport base q s =
     (if int (length xs) < suiteql_limit
      then Break (s\<lparr>sent := sent s @ [suiteql_request base q (offset s)],
                    all_items := all_items s @ xs\<rparr>)
      else Continue (s\<lparr>sent := sent s @ [suiteql_request base q (offset s)],
                       all_items := all_items s @ xs, offset := offset s + suiteql_limit\<rparr>))"
  using assms
  by (auto simp: suiteql_pass_def page_items_def Let_def
           split: if_splits option.splits pyval.splits)

lemma records_pass_failed:
  "status_code (transport (length (sent s)) (records_request url (offset s))) \<noteq> 200 \<Longrightarrow>
   records_pass transport url s = Break (s\<lparr>sent := sent s @ [records_request url (offset s)]\<rparr>)"
  by (simp add: records_pass_def Let_def)

lemma dataset_pass_failed:
  "status_code (transport (length (sent s)) (dataset_request base limit (offset s))) \<noteq> 200 \<Longrightarrow>
   dataset_pass transport base limit s =
     Break (s\<lparr>sent := sent s @ [dataset_request base limit (offset s)]\<rparr>)"
  by (simp add: dataset_pass_def Let_def)

lemma suiteql_pass_failed:
  "status_code (transport (length (sent s)) (suiteql_request base q (offset s))) \<noteq> 200 \<Longrightarrow>
   suiteql_pass transport base q s =
     Break (s\<lparr>sent := sent s @ [suiteql_request base q (offset s)]\<rparr>)"
  by (simp add: suiteql_pass_def Let_def)




subsection \<open>A run of pages that all ask for more\<close>

lemma records_pages:
  assumes "\<forall>j<length xss. \<forall>req.
             page_items (transport j req) = Some (xss ! j) \<and> has_more (transport j req)"
  shows "passes (length xss) (records_pass transport url) initial =
     Continue \<lparr>sent = map (\<lambda>j. records_request url (int (length (concat (take j xss)))))
                         [0..<length xss],
               offset = int (length (concat xss)), all_items = concat xss\<rparr>"
  using assms
proof (induction xss rule: rev_induct)
  case Nil
  show ?case by (simp add: initial_def)
next
  case (snoc x xss)
  let ?s = "\<lparr>sent = map (\<lambda>j. records_request url (int (length (concat (take j xss)))))
                         [0..<length xss],
               offset = int (length (concat xss)), all_items = concat xss\<rparr>"
  have "\<forall>j<length xss. \<forall>req.
          page_items (transport j req) = Some (xss ! j) \<and> has_more (transport j req)"
  proof (intro allI impI)
    fix j req
    assume j: "j < length xss"
    then have "j < length (xss @ [x])" by simp
    with snoc.prems have "page_items (transport j req) = Some ((xss @ [x]) ! j) \<and>
        has_more (transport j req)" by blast
    with j show "page_items (transport j req) = Some (xss ! j) \<and> has_more (transport j req)"
      by (simp add: nth_append)
  qed
  then have run: "passes (length xss) (records_pass transport url) initial = Continue ?s"
    by (rule snoc.IH)
  have last: "\<forall>req. page_items (transport (length xss) req) = Some x \<and>
      has_more (transport (length xss) req)"
    using snoc.prems by (auto dest: spec [of _ "length xss"])
  have "page_items (transport (length (sent ?s)) (records_request url (offset ?s))) = Some x"
    using last by simp
  then have "records_pass transport url ?s =
      Continue (?s\<lparr>sent := sent ?s @ [records_request url (offset ?s)],
                   all_items := all_items ?s @ x, offset := offset ?s + int (length x)\<rparr>)"
    using last by (simp add: records_pass_page)
  moreover have "passes (Suc (length xss)) (records_pass transport url) initial =
      records_pass transport url ?s"
    using run by (rule passes_step)
  ultimately show ?case by simp
qed

lemma snoc_all:
  assumes "\<forall>j<length (xss @ [x]). Q j ((xss @ [x]) ! j)"
  shows "(\<forall>j<length xss. Q j (xss ! j)) \<and> Q (length xss) x"
proof
  show "\<forall>j<length xss. Q j (xss ! j)"
  proof (intro allI impI)
    fix j
    assume j: "j < length xss"
    then have "j < length (xss @ [x])" by simp
    with assms have "Q j ((xss @ [x]) ! j)" by blast
    with j show "Q j (xss ! j)" by (simp add: nth_append)
  qed
  have "length xss < length (xss @ [x])" by simp
  with assms have "Q (length xss) ((xss @ [x]) ! length xss)" by blast
  then show "Q (length xss) x" by simp
qed

lemma dataset_pages:
  assumes "\<forall>j<length xss. \<forall>req.
             page_items (transport j req) = Some (xss ! j) \<and> has_more (transport j req)"
  shows "passes (length xss) (dataset_pass transport base limit) initial =
     Continue \<lparr>sent = map (\<lambda>j. dataset_request base limit (int j * limit)) [0..<length xss],
               offset = int (length xss) * limit, all_items = concat xss\<rparr>"
  using assms
proof (induction xss rule: rev_induct)
  case Nil
  show ?case by (simp add: initial_def)
next
  case (snoc x xss)
  let ?s = "\<lparr>sent = map (\<lambda>j. dataset_request base limit (int j * limit)) [0..<length xss],
               offset = int (length xss) * limit, all_items = concat xss\<rparr>"
  from snoc.prems
  have both: "(\<forall>j<length xss. \<forall>req.
          page_items (transport j req) = Some (xss ! j) \<and> has_more (transport j req)) \<and>
       (\<forall>req. page_items (transport (length xss) req) = Some x \<and>
          has_more (transport (length xss) req))"
    by (rule snoc_all [where Q = "\<lambda>j xs. \<forall>req. page_items (transport j req) = Some xs \<and>
          has_more (transport j req)"])
  then have run: "passes (length xss) (dataset_pass transport base limit) initial = Continue ?s"
    using snoc.IH by blast
  have "page_items (transport (length (sent ?s)) (dataset_request base limit (offset ?s))) = Some x"
    using both by simp
  then have "dataset_pass transport base limit ?s =
      Continue (?s\<lparr>sent := sent ?s @ [dataset_request base limit (offset ?s)],
                   all_items := all_items ?s @ x, offset := offset ?s + limit\<rparr>)"
    using both by (simp add: dataset_pass_page)
  moreover have "passes (Suc (length xss)) (dataset_pass transport base limit) initial =
      dataset_pass transport base limit ?s"
    using run by (rule passes_step)
  ultimately show ?case by (simp add: algebra_simps)
qed

lemma suiteql_pages:
  assumes "\<forall>j<length xss. \<forall>req.
             page_items (transport j req) = Some (xss ! j) \<and> suiteql_limit \<le> int (length (xss ! j))"
  shows "passes (length xss) (suiteql_pass transport base q) initial =
     Continue \<lparr>sent = map (\<lambda>j. suiteql_request base q (int j * suiteql_limit)) [0..<length xss],
               offset = int (length xss) * suiteql_limit, all_items = concat xss\<rparr>"
  using assms
proof (induction xss rule: rev_induct)
  case Nil
  show ?case by (simp add: initial_def)
next
  case (snoc x xss)
  let ?s = "\<lparr>sent = map (\<lambda>j. suiteql_request base q (int j * suiteql_limit)) [0..<length xss],
               offset = int (length xss) * suiteql_limit, all_items = concat xss\<rparr>"
  from snoc.prems
  have both: "(\<forall>j<length xss. \<forall>req.
          page_items (transport j req) = Some (xss ! j) \<and> suiteql_limit \<le> int (length (xss ! j))) \<and>
       (\<forall>req. page_items (transport (length xss) req) = Some x \<and>
          suiteql_limit \<le> int (length x))"
    by (rule snoc_all [where Q = "\<lambda>j xs. \<forall>req. page_items (transport j req) = Some xs \<and>
          suiteql_limit \<le> int (length xs)"])
  then have run: "passes (length xss) (suiteql_pass transport base q) initial = Continue ?s"
    using snoc.IH by blast
  have "page_items (transport (length (sent ?s)) (suiteql_request base q (offset ?s))) = Some x"
    using both by simp
  then have "suiteql_pass transport base q ?s =
      Continue (?s\<lparr>sent := sent ?s @ [suiteql_request base q (offset ?s)],
                   all_items := all_items ?s @ x, offset := offset ?s + suiteql_limit\<rparr>)"
    using both by (simp add: suiteql_pass_page)
  moreover have "passes (Suc (length xss)) (suiteql_pass transport base q) initial =
      suiteql_pass transport base q ?s"
    using run by (rule passes_step)
  ultimately show ?case by (simp add: algebra_simps)
qed

subsection \<open>How the three functions return\<close>

lemma records_returns:
  "passes n (records_pass transport (record_base_url cid @ ''/'' @ endpoint)) initial = Break s \<Longrightarrow>
   fetch_all_netsuite_records cid transport endpoint = Some (Inr (all_items s))"
  by (simp add: fetch_all_netsuite_records_def Let_def passes_Break_while)

lemma dataset_returns:
  "passes n (dataset_pass transport (dataset_url cid dataset_id) limit) initial = Break s \<Longrightarrow>
   fetch_all_dataset_records cid transport dataset_id limit = Some (Inr (all_items s))"
  by (simp add: fetch_all_dataset_records_def passes_Break_while)

lemma suiteql_returns:
  "passes n (suiteql_pass transport (suiteql_url cid) q) initial = Break s \<Longrightarrow>
   run_suiteql_query cid transport q = Some (Inr (all_items s))"
  by (simp add: run_suiteql_query_def passes_Break_while)

lemma page_items_page: "page_items (page xs flag) = Some xs"
  by (simp add: page_items_def page_def)

lemma has_more_page: "has_more (page xs flag) = flag"
  by (simp add: has_more_def page_def)

lemma status_code_reply: "status_code (reply code) = code"
  by (simp add: reply_def)

lemma lacks_hasMore_no_more: "lacks_hasMore r \<Longrightarrow> \<not> has_more r"
  by (auto simp: lacks_hasMore_def has_more_def split: option.splits pyval.splits)

lemma split_not_Nil: "split sep s \<noteq> []"
  by (induction s) (auto split: list.splits)

lemma rstrip_no_trailing: "s \<noteq> [] \<Longrightarrow> last s \<noteq> c \<Longrightarrow> rstrip c s = s"
  by (cases s rule: rev_cases) (simp_all add: rstrip_def)

lemma records_failed_after:
  assumes pages: "\<forall>j<length xss. \<forall>req.
             page_items (transport j req) = Some (xss ! j) \<and> has_more (transport j req)"
    and failed: "\<forall>req. status_code (transport (length xss) req) \<noteq> 200"
  shows "\<exists>s. passes (Suc (length xss)) (records_pass transport url) initial = Break s \<and>
             all_items s = concat xss"
proof -
  let ?s = "\<lparr>sent = map (\<lambda>j. records_request url (int (length (concat (take j xss)))))
                         [0..<length xss],
               offset = int (length (concat xss)), all_items = concat xss\<rparr>"
  have "passes (length xss) (records_pass transport url) initial = Continue ?s"
    using pages by (rule records_pages)
  then have "passes (Suc (length xss)) (records_pass transport url) initial =
      records_pass transport url ?s"
    by (rule passes_step)
  moreover have "records_pass transport url ?s =
      Break (?s\<lparr>sent := sent ?s @ [records_request url (offset ?s)]\<rparr>)"
    using failed by (intro records_pass_failed) simp
  ultimately show ?thesis by simp
qed

lemma dataset_failed_after:
  assumes pages: "\<forall>j<length xss. \<forall>req.
             page_items (transport j req) = Some (xss ! j) \<and> has_more (transport j req)"
    and failed: "\<forall>req. status_code (transport (length xss) req) \<noteq> 200"
  shows "\<exists>s. passes (Suc (length xss)) (dataset_pass transport base limit) initial = Break s \<and>
             all_items s = concat xss"
proof -
  let ?s = "\<lparr>sent = map (\<lambda>j. dataset_request base limit (int j * limit)) [0..<length xss],
               offset = int (length xss) * limit, all_items = concat xss\<rparr>"
  have "passes (length xss) (dataset_pass transport base limit) initial = Continue ?s"
    using pages by (rule dataset_pages)
  then have "passes (Suc (length xss)) (dataset_pass transport base limit) initial =
      dataset_pass transport base limit ?s"
    by (rule passes_step)
  moreover have "dataset_pass transport base limit ?s =
      Break (?s\<lparr>sent := sent ?s @ [dataset_request base limit (offset ?s)]\<rparr>)"
    using failed by (intro dataset_pass_failed) simp
  ultimately show ?thesis by simp
qed

lemma suiteql_failed_after:
  assumes pages: "\<forall>j<length xss. \<forall>req.
             page_items (transport j req) = Some (xss ! j) \<and> suiteql_limit \<le> int (length (xss ! j))"
    and failed: "\<forall>req. status_code (transport (length xss) req) \<noteq> 200"
  shows "\<exists>s. passes (Suc (length xss)) (suiteql_pass transport base q) initial = Break s \<and>
             all_items s = concat xss"
proof -
  let ?s = "\<lparr>sent = map (\<lambda>j. suiteql_request base q (int j * suiteql_limit)) [0..<length xss],
               offset = int (length xss) * suiteql_limit, all_items = concat xss\<rparr>"
  have "passes (length xss) (suiteql_pass transport base q) initial = Continue ?s"
    using pages by (rule suiteql_pages)
  then have "passes (Suc (length xss)) (suiteql_pass transport base q) initial =
      suiteql_pass transport base q ?s"
    by (rule passes_step)
  moreover have "suiteql_pass transport base q ?s =
      Break (?s\<lparr>sent := sent ?s @ [suiteql_request base q (offset ?s)]\<rparr>)"
    using failed by (intro suiteql_pass_failed) simp
  ultimately show ?thesis by simp
qed

subsection \<open>A request that fails\<close>

text \<open>
  Claim C1. Let the transport answer the first requests of a paginated fetch with pages
  that make the loop go on (for the record list and the dataset: \<^verbatim>\<open>hasMore\<close> true; for
  the query: at least \<^verbatim>\<open>limit\<close> items), and the next request with a status other than
  200. Then the function returns, raises nothing, and returns the items of the pages
  before the failure, in order. With no page before the failure the result is the empty
  list.
\<close>

theorem failed_request_returns_accumulated:
  assumes pages: "\<forall>j<length xss. \<forall>req. page_items (transport j req) = Some (xss ! j)"
    and failed: "\<forall>req. status_code (transport (length xss) req) \<noteq> 200"
  shows "((\<forall>j<length xss. \<forall>req. has_more (transport j req)) \<longrightarrow>
            fetch_all_netsuite_records cid transport endpoint = Some (Inr (concat xss)) \<and>
            fetch_all_dataset_records cid transport dataset_id limit = Some (Inr (concat xss))) \<and>
         ((\<forall>j<length xss. suiteql_limit \<le> int (length (xss ! j))) \<longrightarrow>
            run_suiteql_query cid transport query_string = Some (Inr (concat xss)))"
proof (intro conjI impI)
  assume more: "\<forall>j<length xss. \<forall>req. has_more (transport j req)"
  with pages have both: "\<forall>j<length xss. \<forall>req.
      page_items (transport j req) = Some (xss ! j) \<and> has_more (transport j req)"
    by blast
  from records_failed_after [OF both failed]
  obtain s where "passes (Suc (length xss))
      (records_pass transport (record_base_url cid @ ''/'' @ endpoint)) initial = Break s"
    and "all_items s = concat xss" by blast
  then show "fetch_all_netsuite_records cid transport endpoint = Some (Inr (concat xss))"
    using records_returns by fastforce
  from dataset_failed_after [OF both failed]
  obtain t where "passes (Suc (length xss))
      (dataset_pass transport (dataset_url cid dataset_id) limit) initial = Break t"
    and "all_items t = concat xss" by blast
  then show "fetch_all_dataset_records cid transport dataset_id limit = Some (Inr (concat xss))"
    using dataset_returns by fastforce
next
  assume full: "\<forall>j<length xss. suiteql_limit \<le> int (length (xss ! j))"
  with pages have both: "\<forall>j<length xss. \<forall>req.
      page_items (transport j req) = Some (xss ! j) \<and> suiteql_limit \<le> int (length (xss ! j))"
    by blast
  from suiteql_failed_after [OF both failed]
  obtain s where "passes (Suc (length xss))
      (suiteql_pass transport (suiteql_url cid) query_string) initial = Break s"
    and "all_items s = concat xss" by blast
  then show "run_suiteql_query cid transport query_string = Some (Inr (concat xss))"
    using suiteql_returns by fastforce
qed

theorem failed_request_returns_accumulated_witness:
  "fetch_all_netsuite_records None (script [page [PInt 1, PInt 2] True] (reply 500)) ''customer''
     = Some (Inr [PInt 1, PInt 2]) \<and>
   fetch_all_dataset_records None (script [page [PInt 1, PInt 2] True] (reply 500)) ''ds'' 2
     = Some (Inr [PInt 1, PInt 2]) \<and>
   run_suiteql_query None (script [] (reply 500)) ''SELECT 1'' = Some (Inr [])"
proof -
  let ?t = "script [page [PInt 1, PInt 2] True] (reply 500)"
  have p: "\<forall>j<length [[PInt 1, PInt 2]]. \<forall>req. page_items (?t j req) = Some ([[PInt 1, PInt 2]] ! j)"
    by (simp add: script_def page_items_page)
  have f: "\<forall>req. status_code (?t (length [[PInt 1, PInt 2]]) req) \<noteq> 200"
    by (simp add: script_def status_code_reply)
  have m: "\<forall>j<length [[PInt 1, PInt 2]]. \<forall>req. has_more (?t j req)"
    by (simp add: script_def has_more_page)
  have p0: "\<forall>j<length ([] :: pyval list list). \<forall>req.
      page_items (script [] (reply 500) j req) = Some ([] ! j)"
    by simp
  have f0: "\<forall>req. status_code (script [] (reply 500) (length ([] :: pyval list list)) req) \<noteq> 200"
    by (simp add: script_def status_code_reply)
  from failed_request_returns_accumulated [OF p f, of None "''customer''" "''ds''" 2 "''SELECT 1''"] m
  have a: "fetch_all_netsuite_records None ?t ''customer'' = Some (Inr [PInt 1, PInt 2]) \<and>
     fetch_all_dataset_records None ?t ''ds'' 2 = Some (Inr [PInt 1, PInt 2])"
    by simp
  from failed_request_returns_accumulated [OF p0 f0, of None "''customer''" "''ds''" 2 "''SELECT 1''"]
  have b: "run_suiteql_query None (script [] (reply 500)) ''SELECT 1'' = Some (Inr [])"
    by simp
  from a b show ?thesis by simp
qed

subsection \<open>The offsets of the record list\<close>



subsection \<open>The offsets of the dataset and of the query\<close>



subsection \<open>When the query goes on\<close>



subsection \<open>The result of a complete fetch\<close>

text \<open>
  Claim C5. When the transport serves pages that make the loop go on and then a page that
  ends it (\<^verbatim>\<open>hasMore\<close> not true for the record list and the dataset, fewer than
  \<^verbatim>\<open>limit\<close> items for the query), each of the three functions returns the items of
  all these pages, page after page in the order they were fetched and every item in its
  place in its page. Nothing is dropped or moved: an item that two pages both hold is in
  the result twice.
\<close>

theorem result_is_concatenation_of_pages:
  assumes pages: "\<forall>j<length xss. \<forall>req. page_items (transport j req) = Some (xss ! j)"
    and final: "\<forall>req. page_items (transport (length xss) req) = Some ys"
  shows "((\<forall>j<length xss. \<forall>req. has_more (transport j req)) \<and>
          (\<forall>req. \<not> has_more (transport (length xss) req)) \<longrightarrow>
            fetch_all_netsuite_records cid transport endpoint = Some (Inr (concat xss @ ys)) \<and>
            fetch_all_dataset_records cid transport dataset_id limit = Some (Inr (concat xss @ ys))) \<and>
         ((\<forall>j<length xss. suiteql_limit \<le> int (length (xss ! j))) \<and>
          int (length ys) < suiteql_limit \<longrightarrow>
            run_suiteql_query cid transport query_string = Some (Inr (concat xss @ ys)))"
proof (intro conjI impI)
  assume flags: "(\<forall>j<length xss. \<forall>req. has_more (transport j req)) \<and>
          (\<forall>req. \<not> has_more (transport (length xss) req))"
  with pages have both: "\<forall>j<length xss. \<forall>req.
      page_items (transport j req) = Some (xss ! j) \<and> has_more (transport j req)"
    by blast
  let ?url = "record_base_url cid @ ''/'' @ endpoint"
  let ?s = "\<lparr>sent = map (\<lambda>j. records_request ?url (int (length (concat (take j xss)))))
                         [0..<length xss],
               offset = int (length (concat xss)), all_items = concat xss\<rparr>"
  have "passes (length xss) (records_pass transport ?url) initial = Continue ?s"
    using both by (rule records_pages)
  then have "passes (Suc (length xss)) (records_pass transport ?url) initial =
      records_pass transport ?url ?s"
    by (rule passes_step)
  moreover have "records_pass transport ?url ?s =
      Break (?s\<lparr>sent := sent ?s @ [records_request ?url (offset ?s)],
                all_items := all_items ?s @ ys\<rparr>)"
    using final flags by (simp add: records_pass_page)
  ultimately have "passes (Suc (length xss)) (records_pass transport ?url) initial =
      Break (?s\<lparr>sent := sent ?s @ [records_request ?url (offset ?s)],
                all_items := all_items ?s @ ys\<rparr>)"
    by simp
  then have "fetch_all_netsuite_records cid transport endpoint =
      Some (Inr (all_items (?s\<lparr>sent := sent ?s @ [records_request ?url (offset ?s)],
                all_items := all_items ?s @ ys\<rparr>)))"
    by (rule records_returns)
  then show "fetch_all_netsuite_records cid transport endpoint = Some (Inr (concat xss @ ys))"
    by simp
  let ?base = "dataset_url cid dataset_id"
  let ?d = "\<lparr>sent = map (\<lambda>j. dataset_request ?base limit (int j * limit)) [0..<length xss],
               offset = int (length xss) * limit, all_items = concat xss\<rparr>"
  have "passes (length xss) (dataset_pass transport ?base limit) initial = Continue ?d"
    using both by (rule dataset_pages)
  then have "passes (Suc (length xss)) (dataset_pass transport ?base limit) initial =
      dataset_pass transport ?base limit ?d"
    by (rule passes_step)
  moreover have "dataset_pass transport ?base limit ?d =
      Break (?d\<lparr>sent := sent ?d @ [dataset_request ?base limit (offset ?d)],
                all_items := all_items ?d @ ys\<rparr>)"
    using final flags by (simp add: dataset_pass_page)
  ultimately have "passes (Suc (length xss)) (dataset_pass transport ?base limit) initial =
      Break (?d\<lparr>sent := sent ?d @ [dataset_request ?base limit (offset ?d)],
                all_items := all_items ?d @ ys\<rparr>)"
    by simp
  then have "fetch_all_dataset_records cid transport dataset_id limit =
      Some (Inr (all_items (?d\<lparr>sent := sent ?d @ [dataset_request ?base limit (offset ?d)],
                all_items := all_items ?d @ ys\<rparr>)))"
    by (rule dataset_returns)
  then show "fetch_all_dataset_records cid transport dataset_id limit =
      Some (Inr (concat xss @ ys))"
    by simp
next
  assume sizes: "(\<forall>j<length xss. suiteql_limit \<le> int (length (xss ! j))) \<and>
          int (length ys) < suiteql_limit"
  with pages have both: "\<forall>j<length xss. \<forall>req.
      page_items (transport j req) = Some (xss ! j) \<and> suiteql_limit \<le> int (length (xss ! j))"
    by blast
  let ?url = "suiteql_url cid"
  let ?s = "\<lparr>sent = map (\<lambda>j. suiteql_request ?url query_string (int j * suiteql_limit))
                         [0..<length xss],
               offset = int (length xss) * suiteql_limit, all_items = concat xss\<rparr>"
  have "passes (length xss) (suiteql_pass transport ?url query_string) initial = Continue ?s"
    using both by (rule suiteql_pages)
  then have "passes (Suc (length xss)) (suiteql_pass transport ?url query_string) initial =
      suiteql_pass transport ?url query_string ?s"
    by (rule passes_step)
  moreover have "suiteql_pass transport ?url query_string ?s =
      Break (?s\<lparr>sent := sent ?s @ [suiteql_request ?url query_string (offset ?s)],
                all_items := all_items ?s @ ys\<rparr>)"
    using final sizes by (simp add: suiteql_pass_page)
  ultimately have "passes (Suc (length xss)) (suiteql_pass transport ?url query_string) initial =
      Break (?s\<lparr>sent := sent ?s @ [suiteql_request ?url query_string (offset ?s)],
                all_items := all_items ?s @ ys\<rparr>)"
    by simp
  then have "run_suiteql_query cid transport query_string =
      Some (Inr (all_items (?s\<lparr>sent := sent ?s @ [suiteql_request ?url query_string (offset ?s)],
                all_items := all_items ?s @ ys\<rparr>)))"
    by (rule suiteql_returns)
  then show "run_suiteql_query cid transport query_string = Some (Inr (concat xss @ ys))"
    by simp
qed

theorem result_is_concatenation_of_pages_witness:
  "fetch_all_netsuite_records None
     (script [page [PInt 1, PInt 2] True] (page [PInt 2, PInt 1] False)) ''customer''
     = Some (Inr [PInt 1, PInt 2, PInt 2, PInt 1]) \<and>
   fetch_all_dataset_records None
     (script [page [PInt 1, PInt 2] True] (page [PInt 2, PInt 1] False)) ''ds'' 2
     = Some (Inr [PInt 1, PInt 2, PInt 2, PInt 1]) \<and>
   run_suiteql_query None (script [] (page [PInt 2, PInt 2] True)) ''SELECT 1''
     = Some (Inr [PInt 2, PInt 2])"
proof -
  let ?t = "script [page [PInt 1, PInt 2] True] (page [PInt 2, PInt 1] False)"
  let ?u = "script [] (page [PInt 2, PInt 2] True)"
  have p: "\<forall>j<length [[PInt 1, PInt 2]]. \<forall>req. page_items (?t j req) = Some ([[PInt 1, PInt 2]] ! j)"
    by (simp add: script_def page_items_page)
  have f: "\<forall>req. page_items (?t (length [[PInt 1, PInt 2]]) req) = Some [PInt 2, PInt 1]"
    by (simp add: script_def page_items_page)
  have m: "(\<forall>j<length [[PInt 1, PInt 2]]. \<forall>req. has_more (?t j req)) \<and>
      (\<forall>req. \<not> has_more (?t (length [[PInt 1, PInt 2]]) req))"
    by (simp add: script_def has_more_page)
  have p0: "\<forall>j<length ([] :: pyval list list). \<forall>req. page_items (?u j req) = Some ([] ! j)"
    by simp
  have f0: "\<forall>req. page_items (?u (length ([] :: pyval list list)) req) = Some [PInt 2, PInt 2]"
    by (simp add: script_def page_items_page)
  have s0: "(\<forall>j<length ([] :: pyval list list). suiteql_limit \<le> int (length ([] ! j))) \<and>
      int (length [PInt 2, PInt 2]) < suiteql_limit"
    by (simp add: suiteql_limit_def)
  from result_is_concatenation_of_pages [OF p f, of None "''customer''" "''ds''" 2 "''SELECT 1''"] m
  have a: "fetch_all_netsuite_records None ?t ''customer'' = Some (Inr [PInt 1, PInt 2, PInt 2, PInt 1]) \<and>
     fetch_all_dataset_records None ?t ''ds'' 2 = Some (Inr [PInt 1, PInt 2, PInt 2, PInt 1])"
    by simp
  from result_is_concatenation_of_pages [OF p0 f0, of None "''customer''" "''ds''" 2 "''SELECT 1''"] s0
  have b: "run_suiteql_query None ?u ''SELECT 1'' = Some (Inr [PInt 2, PInt 2])"
    by simp
  from a b show ?thesis by simp
qed

lemma while_True_Break:
  "body s = Break s' \<Longrightarrow> while_True body s = Some (Inr s')"
  by (subst while_True.simps) simp

subsection \<open>A page without the flag\<close>

text \<open>
  Claim C10. In the record list and in the dataset fetch, a page whose body has no key
  \<^verbatim>\<open>hasMore\<close> ends the loop once its items are appended, however many items it holds:
  the pass breaks in the state that a page with the same items and \<^verbatim>\<open>hasMore\<close> false
  leaves, and the loop returns that state.
\<close>

theorem missing_hasMore_ends_the_loop:
  assumes items: "page_items r = Some xs"
    and missing: "lacks_hasMore r"
    and served: "\<forall>req. transport (length (sent s)) req = r"
    and explicit: "\<forall>req. transport' (length (sent s)) req = page xs False"
  shows "records_pass transport url s =
           Break (s\<lparr>sent := sent s @ [records_request url (offset s)],
                    all_items := all_items s @ xs\<rparr>) \<and>
         records_pass transport' url s = records_pass transport url s \<and>
         while_True (records_pass transport url) s =
           Some (Inr (s\<lparr>sent := sent s @ [records_request url (offset s)],
                        all_items := all_items s @ xs\<rparr>)) \<and>
         dataset_pass transport base limit s =
           Break (s\<lparr>sent := sent s @ [dataset_request base limit (offset s)],
                    all_items := all_items s @ xs\<rparr>) \<and>
         dataset_pass transport' base limit s = dataset_pass transport base limit s \<and>
         while_True (dataset_pass transport base limit) s =
           Some (Inr (s\<lparr>sent := sent s @ [dataset_request base limit (offset s)],
                        all_items := all_items s @ xs\<rparr>))"
proof -
  have no: "\<not> has_more r" using missing by (rule lacks_hasMore_no_more)
  have a: "records_pass transport url s =
           Break (s\<lparr>sent := sent s @ [records_request url (offset s)],
                    all_items := all_items s @ xs\<rparr>)"
    using items no served by (simp add: records_pass_page)
  have a': "records_pass transport' url s =
           Break (s\<lparr>sent := sent s @ [records_request url (offset s)],
                    all_items := all_items s @ xs\<rparr>)"
    using explicit by (simp add: records_pass_page page_items_page has_more_page)
  have b: "dataset_pass transport base limit s =
           Break (s\<lparr>sent := sent s @ [dataset_request base limit (offset s)],
                    all_items := all_items s @ xs\<rparr>)"
    using items no served by (simp add: dataset_pass_page)
  have b': "dataset_pass transport' base limit s =
           Break (s\<lparr>sent := sent s @ [dataset_request base limit (offset s)],
                    all_items := all_items s @ xs\<rparr>)"
    using explicit by (simp add: dataset_pass_page page_items_page has_more_page)
  from a a' b b' show ?thesis
    by (simp add: while_True_Break)
qed

theorem missing_hasMore_ends_the_loop_witness:
  "fetch_all_netsuite_records None
     (script [] \<lparr>status_code = 200, headers = [], json = Some (PDict [(''items'', PList [PInt 1])])\<rparr>)
     ''customer'' = Some (Inr [PInt 1]) \<and>
   fetch_all_dataset_records None
     (script [] \<lparr>status_code = 200, headers = [], json = Some (PDict [(''items'', PList [PInt 1])])\<rparr>)
     ''ds'' 1 = Some (Inr [PInt 1])"
proof -
  let ?r = "\<lparr>status_code = 200, headers = [], json = Some (PDict [(''items'', PList [PInt 1])])\<rparr>"
  have i: "page_items ?r = Some [PInt 1]" by (simp add: page_items_def)
  have l: "lacks_hasMore ?r" by (simp add: lacks_hasMore_def)
  have t: "\<forall>req. script [] ?r (length (sent initial)) req = ?r" by (simp add: script_def)
  have e: "\<forall>req. script [] (page [PInt 1] False) (length (sent initial)) req = page [PInt 1] False"
    by (simp add: script_def)
  from missing_hasMore_ends_the_loop
    [where r = ?r and xs = "[PInt 1]" and transport = "script [] ?r" and s = initial
       and transport' = "script [] (page [PInt 1] False)"
       and url = "record_base_url None @ ''/'' @ ''customer''"
       and base = "dataset_url None ''ds''" and limit = 1, OF i l t e]
  show ?thesis
    by (simp add: fetch_all_netsuite_records_def fetch_all_dataset_records_def Let_def initial_def)
qed

subsection \<open>A loop that does not end\<close>

lemma records_stuck:
  assumes "\<forall>n req. page_items (transport n req) = Some [] \<and> has_more (transport n req)"
  shows "passes n (records_pass transport url) initial =
     Continue \<lparr>sent = replicate n (records_request url 0), offset = 0, all_items = []\<rparr>"
proof (induction n)
  case 0
  show ?case by (simp add: initial_def)
next
  case (Suc n)
  let ?s = "\<lparr>sent = replicate n (records_request url 0), offset = 0, all_items = []\<rparr>"
  have "passes (Suc n) (records_pass transport url) initial = records_pass transport url ?s"
    using Suc.IH by (rule passes_step)
  moreover have "records_pass transport url ?s =
      Continue (?s\<lparr>sent := sent ?s @ [records_request url (offset ?s)],
                   all_items := all_items ?s @ [], offset := offset ?s + int (length ([] :: pyval list))\<rparr>)"
    using assms by (simp add: records_pass_page)
  ultimately show ?case by (simp add: replicate_append_same)
qed

lemma dataset_stuck:
  assumes "\<forall>n req. page_items (transport n req) \<noteq> None \<and> has_more (transport n req)"
  shows "\<exists>s. passes n (dataset_pass transport base 0) initial = Continue s \<and>
     sent s = replicate n (dataset_request base 0 0) \<and> offset s = 0"
proof (induction n)
  case 0
  show ?case by (simp add: initial_def)
next
  case (Suc n)
  then obtain s where run: "passes n (dataset_pass transport base 0) initial = Continue s"
    and s: "sent s = replicate n (dataset_request base 0 0)" "offset s = 0"
    by blast
  from assms obtain xs where
    xs: "page_items (transport (length (sent s)) (dataset_request base 0 (offset s))) = Some xs"
    by blast
  have "passes (Suc n) (dataset_pass transport base 0) initial = dataset_pass transport base 0 s"
    using run by (rule passes_step)
  moreover have "dataset_pass transport base 0 s =
      Continue (s\<lparr>sent := sent s @ [dataset_request base 0 (offset s)],
                  all_items := all_items s @ xs, offset := offset s + 0\<rparr>)"
    using xs assms by (simp add: dataset_pass_page)
  ultimately show ?case using s by (simp add: replicate_append_same)
qed

text \<open>
  Claim C9. The loops need not end. If every reply is a page with \<^verbatim>\<open>hasMore\<close> true and
  no items, the record list fetch never returns: after any number of passes it is still
  running, and every request it has sent carries the offset 0. If every reply is a page
  with \<^verbatim>\<open>hasMore\<close> true and the limit is 0, the dataset fetch never returns either, and
  every request carries the offset 0.
\<close>

theorem stuck_cursor_never_returns:
  "((\<forall>n req. page_items (transport n req) = Some [] \<and> has_more (transport n req)) \<longrightarrow>
      fetch_all_netsuite_records cid transport endpoint = None \<and>
      (\<forall>n. passes n (records_pass transport (record_base_url cid @ ''/'' @ endpoint)) initial =
         Continue \<lparr>sent = replicate n (records_request (record_base_url cid @ ''/'' @ endpoint) 0),
                   offset = 0, all_items = []\<rparr>)) \<and>
   ((\<forall>n req. page_items (transport n req) \<noteq> None \<and> has_more (transport n req)) \<longrightarrow>
      fetch_all_dataset_records cid transport dataset_id 0 = None \<and>
      (\<forall>n. \<not> finished (passes n (dataset_pass transport (dataset_url cid dataset_id) 0) initial) \<and>
           sent (state_of (passes n (dataset_pass transport (dataset_url cid dataset_id) 0) initial)) =
             replicate n (dataset_request (dataset_url cid dataset_id) 0 0)))"
proof (intro conjI impI allI)
  assume h: "\<forall>n req. page_items (transport n req) = Some [] \<and> has_more (transport n req)"
  let ?url = "record_base_url cid @ ''/'' @ endpoint"
  fix n
  show run: "passes n (records_pass transport ?url) initial =
         Continue \<lparr>sent = replicate n (records_request ?url 0), offset = 0, all_items = []\<rparr>"
    using h by (rule records_stuck)
next
  assume h: "\<forall>n req. page_items (transport n req) = Some [] \<and> has_more (transport n req)"
  let ?url = "record_base_url cid @ ''/'' @ endpoint"
  have "\<And>n. \<not> finished (passes n (records_pass transport ?url) initial)"
    by (simp add: records_stuck [OF h])
  then have "while_True (records_pass transport ?url) initial = None"
    by (rule while_True_never)
  then show "fetch_all_netsuite_records cid transport endpoint = None"
    by (simp add: fetch_all_netsuite_records_def Let_def)
next
  assume h: "\<forall>n req. page_items (transport n req) \<noteq> None \<and> has_more (transport n req)"
  let ?base = "dataset_url cid dataset_id"
  have "\<And>n. \<not> finished (passes n (dataset_pass transport ?base 0) initial)"
    using dataset_stuck [OF h, of _ ?base] by (metis finished.simps(1))
  then have "while_True (dataset_pass transport ?base 0) initial = None"
    by (rule while_True_never)
  then show "fetch_all_dataset_records cid transport dataset_id 0 = None"
    by (simp add: fetch_all_dataset_records_def)
next
  assume h: "\<forall>n req. page_items (transport n req) \<noteq> None \<and> has_more (transport n req)"
  fix n
  show "\<not> finished (passes n (dataset_pass transport (dataset_url cid dataset_id) 0) initial)"
    using dataset_stuck [OF h, of n "dataset_url cid dataset_id"] by (metis finished.simps(1))
next
  assume h: "\<forall>n req. page_items (transport n req) \<noteq> None \<and> has_more (transport n req)"
  fix n
  show "sent (state_of (passes n (dataset_pass transport (dataset_url cid dataset_id) 0) initial)) =
      replicate n (dataset_request (dataset_url cid dataset_id) 0 0)"
    using dataset_stuck [OF h, of n "dataset_url cid dataset_id"] by (metis state_of.simps(1))
qed

theorem stuck_cursor_never_returns_witness:
  "fetch_all_netsuite_records None (script [] (page [] True)) ''customer'' = None \<and>
   fetch_all_dataset_records None (script [] (page [PInt 1] True)) ''ds'' 0 = None"
proof -
  have a: "\<forall>n req. page_items (script [] (page [] True) n req) = Some [] \<and>
      has_more (script [] (page [] True) n req)"
    by (simp add: script_def page_items_page has_more_page)
  have b: "\<forall>n req. page_items (script [] (page [PInt 1] True) n req) \<noteq> None \<and>
      has_more (script [] (page [PInt 1] True) n req)"
    by (simp add: script_def page_items_page has_more_page)
  from stuck_cursor_never_returns [of "script [] (page [] True)" None "''customer''" "''ds''"] a
  have x: "fetch_all_netsuite_records None (script [] (page [] True)) ''customer'' = None"
    by blast
  from stuck_cursor_never_returns [of "script [] (page [PInt 1] True)" None "''customer''" "''ds''"] b
  have y: "fetch_all_dataset_records None (script [] (page [PInt 1] True)) ''ds'' 0 = None"
    by blast
  from x y show ?thesis by simp
qed

section \<open>Record create\<close>

text \<open>
  Claim C6 as it is written says that on a 204 reply with a \<^verbatim>\<open>Location\<close> header the
  identifier is the last segment of the header value cut at every \<^verbatim>\<open>/\<close>. The code
  strips the trailing slashes before it cuts, and treats an empty value as no header: for
  the value \<^verbatim>\<open>/record/v1/customer/4821/\<close> the last segment is empty and the code
  returns the identifier 4821; for the empty value the code returns the empty mapping.
\<close>

theorem create_204_location_counterexample:
  "create_netsuite_record None
     (always \<lparr>status_code = 204, headers = [(''Location'', ''/record/v1/customer/4821/'')],
              json = None\<rparr>) ''customer'' (PDict []) = Inr (PDict [(''id'', PStr ''4821'')]) \<and>
   last_segment ''/record/v1/customer/4821/'' = '''' \<and>
   create_netsuite_record None
     (always \<lparr>status_code = 204, headers = [(''Location'', '''')], json = None\<rparr>)
     ''customer'' (PDict []) = Inr (PDict [])"
  by (simp add: create_netsuite_record_def always_def headers_get_def lower_char_def
        index_last_def rstrip_def last_segment_def Let_def)

text \<open>
  Claim C6, amended. On a 204 reply, when the \<^verbatim>\<open>Location\<close> header is present and its
  value is not empty, the result is the mapping of \<^verbatim>\<open>id\<close> to the last segment of the
  value with the slashes at its end removed; this is the last segment of the value
  itself when the value does not end in a slash. When the header is absent or its value
  is empty, the result is the empty mapping, not \<^verbatim>\<open>None\<close>.
\<close>

theorem create_204_reads_location:
  assumes "transport (POST (record_base_url cid @ ''/'' @ endpoint) payload []) = r"
    and "status_code r = 204"
  shows "(headers_get (headers r) ''Location'' = None \<longrightarrow>
            create_netsuite_record cid transport endpoint payload = Inr (PDict [])) \<and>
         (headers_get (headers r) ''Location'' = Some [] \<longrightarrow>
            create_netsuite_record cid transport endpoint payload = Inr (PDict [])) \<and>
         (headers_get (headers r) ''Location'' = Some v \<and> v \<noteq> [] \<longrightarrow>
            create_netsuite_record cid transport endpoint payload =
              Inr (PDict [(''id'', PStr (last_segment (rstrip CHR ''/'' v)))])) \<and>
         (headers_get (headers r) ''Location'' = Some v \<and> v \<noteq> [] \<and> last v \<noteq> CHR ''/'' \<longrightarrow>
            create_netsuite_record cid transport endpoint payload =
              Inr (PDict [(''id'', PStr (last_segment v))]))"
  using assms
  by (simp add: create_netsuite_record_def Let_def index_last_def split_not_Nil last_segment_def
        rstrip_no_trailing)

theorem create_204_reads_location_witness:
  "create_netsuite_record None
     (always \<lparr>status_code = 204,
              headers = [(''Location'', ''https://x.example/services/rest/record/v1/customer/4821'')],
              json = None\<rparr>) ''customer'' (PDict []) = Inr (PDict [(''id'', PStr ''4821'')]) \<and>
   create_netsuite_record None (always \<lparr>status_code = 204, headers = [], json = None\<rparr>)
     ''customer'' (PDict []) = Inr (PDict [])"
proof -
  let ?v = "''https://x.example/services/rest/record/v1/customer/4821''"
  let ?r = "\<lparr>status_code = 204, headers = [(''Location'', ?v)], json = None\<rparr>"
  let ?e = "\<lparr>status_code = 204, headers = [], json = None\<rparr>"
  have a: "always ?r (POST (record_base_url None @ ''/'' @ ''customer'') (PDict []) []) = ?r"
    by (simp add: always_def)
  have b: "status_code ?r = 204" by simp
  have c: "headers_get (headers ?r) ''Location'' = Some ?v \<and> ?v \<noteq> [] \<and> last ?v \<noteq> CHR ''/''"
    by (simp add: headers_get_def lower_char_def)
  have d: "last_segment ?v = ''4821''"
    by (simp add: last_segment_def)
  have a': "always ?e (POST (record_base_url None @ ''/'' @ ''customer'') (PDict []) []) = ?e"
    by (simp add: always_def)
  have b': "status_code ?e = 204" by simp
  have c': "headers_get (headers ?e) ''Location'' = None"
    by (simp add: headers_get_def)
  from create_204_reads_location
    [where transport = "always ?r" and cid = None and endpoint = "''customer''"
       and payload = "PDict []" and r = ?r and v = ?v, OF a b] c
  have "create_netsuite_record None (always ?r) ''customer'' (PDict []) =
      Inr (PDict [(''id'', PStr (last_segment ?v))])"
    by blast
  then have x: "create_netsuite_record None (always ?r) ''customer'' (PDict []) =
      Inr (PDict [(''id'', PStr ''4821'')])"
    by (simp only: d)
  from create_204_reads_location
    [where transport = "always ?e" and cid = None and endpoint = "''customer''"
       and payload = "PDict []" and r = ?e and v = "[]", OF a' b'] c'
  have y: "create_netsuite_record None (always ?e) ''customer'' (PDict []) = Inr (PDict [])"
    by simp
  from x y show ?thesis by simp
qed

section \<open>Record update\<close>

text \<open>
  Claim C7 as it is written says that no exception leaves an update. There are two ways
  for one to leave it. A reply with status 200 whose body is not JSON makes
  \<^verbatim>\<open>response.json()\<close> raise. And \<^verbatim>\<open>requests.patch\<close> itself raises when it cannot
  produce a response: with an empty company identifier the host of the URL begins with a
  dot and the URL is refused, and a host that cannot be reached is a connection error.
  The function has no handler for either.
\<close>

theorem update_escaping_exception_counterexample:
  "update_netsuite_record None
     (replies \<lparr>status_code = 200, headers = [], json = None\<rparr>)
     ''customer'' ''4821'' (PDict []) = Inl JSONDecodeError \<and>
   update_netsuite_record (Some '''') (checked (reply 204)) ''customer'' ''4821'' (PDict []) =
     Inl InvalidURL \<and>
   update_netsuite_record None (raises ConnectionError) ''customer'' ''4821'' (PDict []) =
     Inl ConnectionError"
  by (simp add: update_netsuite_record_def replies_def checked_def raises_def record_base_url_def
        Let_def)

text \<open>
  Claim C7, amended. When the HTTP call returns a response, an update returns the parsed
  body if the status is 200 or 201 and the body is JSON, the empty mapping if the status
  is 204, and \<^verbatim>\<open>None\<close> for any other status. An exception leaves the update in two
  cases and no other: the HTTP call itself raises, and that exception goes through
  unchanged; or the status is 200 or 201 and the body is not JSON.
\<close>

theorem update_result_by_outcome:
  assumes "call = transport (PATCH (record_base_url cid @ ''/'' @ endpoint @ ''/'' @ record_id) payload)"
  shows "(call = Inr r \<and> status_code r \<in> {200, 201} \<and> json r = Some body \<longrightarrow>
            update_netsuite_record cid transport endpoint record_id payload = Inr body) \<and>
         (call = Inr r \<and> status_code r \<in> {200, 201} \<and> json r = None \<longrightarrow>
            update_netsuite_record cid transport endpoint record_id payload = Inl JSONDecodeError) \<and>
         (call = Inr r \<and> status_code r = 204 \<longrightarrow>
            update_netsuite_record cid transport endpoint record_id payload = Inr (PDict [])) \<and>
         (call = Inr r \<and> status_code r \<notin> {200, 201, 204} \<longrightarrow>
            update_netsuite_record cid transport endpoint record_id payload = Inr PNone) \<and>
         (call = Inl e \<longrightarrow>
            update_netsuite_record cid transport endpoint record_id payload = Inl e) \<and>
         ((\<exists>x. update_netsuite_record cid transport endpoint record_id payload = Inl x) \<longleftrightarrow>
            (\<exists>x. call = Inl x) \<or>
            (\<exists>q. call = Inr q \<and> status_code q \<in> {200, 201} \<and> json q = None))"
  using assms
  by (auto simp: update_netsuite_record_def Let_def split: option.splits sum.splits)

theorem update_result_by_outcome_witness:
  "update_netsuite_record None
     (replies \<lparr>status_code = 200, headers = [], json = Some (PDict [(''id'', PStr ''4821'')])\<rparr>)
     ''customer'' ''4821'' (PDict []) = Inr (PDict [(''id'', PStr ''4821'')]) \<and>
   update_netsuite_record None (replies (reply 204)) ''customer'' ''4821'' (PDict []) =
     Inr (PDict []) \<and>
   update_netsuite_record None (replies (reply 404)) ''customer'' ''4821'' (PDict []) = Inr PNone \<and>
   update_netsuite_record None (raises ConnectionError) ''customer'' ''4821'' (PDict []) =
     Inl ConnectionError"
proof -
  let ?url = "record_base_url None @ ''/'' @ ''customer'' @ ''/'' @ ''4821''"
  let ?r = "\<lparr>status_code = 200, headers = [], json = Some (PDict [(''id'', PStr ''4821'')])\<rparr>"
  have a: "Inr ?r = replies ?r (PATCH ?url (PDict []))" by (simp add: replies_def)
  have b: "Inr (reply 204) = replies (reply 204) (PATCH ?url (PDict []))"
    by (simp add: replies_def)
  have c: "Inr (reply 404) = replies (reply 404) (PATCH ?url (PDict []))"
    by (simp add: replies_def)
  have d: "Inl ConnectionError = raises ConnectionError (PATCH ?url (PDict []))"
    by (simp add: raises_def)
  from update_result_by_outcome
    [where transport = "replies ?r" and cid = None and endpoint = "''customer''"
       and record_id = "''4821''" and payload = "PDict []" and r = ?r
       and body = "PDict [(''id'', PStr ''4821'')]" and call = "Inr ?r", OF a]
  have x: "update_netsuite_record None (replies ?r) ''customer'' ''4821'' (PDict []) =
      Inr (PDict [(''id'', PStr ''4821'')])"
    by simp
  from update_result_by_outcome
    [where transport = "replies (reply 204)" and cid = None and endpoint = "''customer''"
       and record_id = "''4821''" and payload = "PDict []" and r = "reply 204"
       and call = "Inr (reply 204)", OF b]
  have y: "update_netsuite_record None (replies (reply 204)) ''customer'' ''4821'' (PDict []) =
      Inr (PDict [])"
    by (simp add: reply_def)
  from update_result_by_outcome
    [where transport = "replies (reply 404)" and cid = None and endpoint = "''customer''"
       and record_id = "''4821''" and payload = "PDict []" and r = "reply 404"
       and call = "Inr (reply 404)", OF c]
  have z: "update_netsuite_record None (replies (reply 404)) ''customer'' ''4821'' (PDict []) =
      Inr PNone"
    by (simp add: reply_def)
  from update_result_by_outcome
    [where transport = "raises ConnectionError" and cid = None and endpoint = "''customer''"
       and record_id = "''4821''" and payload = "PDict []" and e = ConnectionError
       and call = "Inl ConnectionError", OF d]
  have w: "update_netsuite_record None (raises ConnectionError) ''customer'' ''4821'' (PDict []) =
      Inl ConnectionError"
    by simp
  from x y z w show ?thesis by simp
qed

section \<open>Record delete\<close>

text \<open>
  Claim C8 as it is written says that no exception leaves a delete. \<^verbatim>\<open>requests.delete\<close>
  raises when it cannot produce a response, and the function has no handler: with an
  empty company identifier the URL is refused, and a host that cannot be reached is a
  connection error. Then the delete returns neither true nor false.
\<close>

theorem delete_call_raises_counterexample:
  "delete_netsuite_record (Some '''') (checked (reply 204)) ''customer'' ''4821'' =
     Inl InvalidURL \<and>
   delete_netsuite_record None (raises ConnectionError) ''customer'' ''4821'' =
     Inl ConnectionError"
  by (simp add: delete_netsuite_record_def checked_def raises_def record_base_url_def Let_def)

text \<open>
  Claim C8, amended. A delete returns true exactly when the HTTP call returns a response
  whose status is 204, and false exactly when it returns a response with any other
  status. An exception leaves the delete exactly when the HTTP call itself raises, and
  it is that exception.
\<close>

theorem delete_result_by_outcome:
  assumes "call = transport (DELETE (record_base_url cid @ ''/'' @ endpoint @ ''/'' @ record_id))"
  shows "(delete_netsuite_record cid transport endpoint record_id = Inr True \<longleftrightarrow>
            (\<exists>r. call = Inr r \<and> status_code r = 204)) \<and>
         (delete_netsuite_record cid transport endpoint record_id = Inr False \<longleftrightarrow>
            (\<exists>r. call = Inr r \<and> status_code r \<noteq> 204)) \<and>
         (delete_netsuite_record cid transport endpoint record_id = Inl e \<longleftrightarrow> call = Inl e)"
  using assms
  by (auto simp: delete_netsuite_record_def Let_def split: sum.splits)

theorem delete_result_by_outcome_witness:
  "delete_netsuite_record None (replies (reply 204)) ''customer'' ''4821'' = Inr True \<and>
   delete_netsuite_record None (replies (reply 200)) ''customer'' ''4821'' = Inr False \<and>
   delete_netsuite_record None (replies (reply 404)) ''customer'' ''4821'' = Inr False \<and>
   delete_netsuite_record None (raises ConnectionError) ''customer'' ''4821'' =
     Inl ConnectionError"
proof -
  let ?url = "record_base_url None @ ''/'' @ ''customer'' @ ''/'' @ ''4821''"
  have a: "Inr (reply 204) = replies (reply 204) (DELETE ?url)" by (simp add: replies_def)
  have b: "Inr (reply 200) = replies (reply 200) (DELETE ?url)" by (simp add: replies_def)
  have c: "Inr (reply 404) = replies (reply 404) (DELETE ?url)" by (simp add: replies_def)
  have d: "Inl ConnectionError = raises ConnectionError (DELETE ?url)" by (simp add: raises_def)
  from delete_result_by_outcome
    [where transport = "replies (reply 204)" and cid = None and endpoint = "''customer''"
       and record_id = "''4821''" and call = "Inr (reply 204)", OF a]
  have x: "delete_netsuite_record None (replies (reply 204)) ''customer'' ''4821'' = Inr True"
    by (simp add: reply_def)
  from delete_result_by_outcome
    [where transport = "replies (reply 200)" and cid = None and endpoint = "''customer''"
       and record_id = "''4821''" and call = "Inr (reply 200)", OF b]
  have y: "delete_netsuite_record None (replies (reply 200)) ''customer'' ''4821'' = Inr False"
    by (simp add: reply_def)
  from delete_result_by_outcome
    [where transport = "replies (reply 404)" and cid = None and endpoint = "''customer''"
       and record_id = "''4821''" and call = "Inr (reply 404)", OF c]
  have z: "delete_netsuite_record None (replies (reply 404)) ''customer'' ''4821'' = Inr False"
    by (simp add: reply_def)
  from delete_result_by_outcome
    [where transport = "raises ConnectionError" and cid = None and endpoint = "''customer''"
       and record_id = "''4821''" and e = ConnectionError and call = "Inl ConnectionError", OF d]
  have w: "delete_netsuite_record None (raises ConnectionError) ''customer'' ''4821'' =
      Inl ConnectionError"
    by simp
  from x y z w show ?thesis by simp
qed

end
